theory Spec2Isabelle
  imports Complex_Main
begin

section \<open>Errors and outcomes\<close>

text \<open>
  The exceptions of \<^verbatim>\<open>erkc63/errors.py\<close> that \<^verbatim>\<open>client.py\<close> raises, together with
  the Python built-in ones its statements can raise. \<open>TransportError\<close> stands for any
  exception of the HTTP transport (connection failure, timeout, undecodable body).
\<close>

datatype error =
    AuthorizationError
  | AuthorizationRequired
  | AccountNotFound
  | AccountBindingError
  | ParsingError
  | TransportError
  | RuntimeError
  | ValueError
  | KeyError
  | IndexError
  | AssertionError

text \<open>
  A coroutine of the client either returns, raises, or never resumes because it awaits
  the semaphore while no permit is free (\<open>Blocked\<close>). The model is sequential: one task
  drives one client, so nobody else will release the permit.
\<close>

datatype 'a outcome = Returned 'a | Raised error | Blocked

section \<open>Session state\<close>

text \<open>
  The fields of \<^verbatim>\<open>ErkcClient\<close>: \<open>cli_closed\<close> is \<^verbatim>\<open>self._cli.closed\<close>; \<open>sem\<close> is the
  value of the module-level \<^verbatim>\<open>_SEMAPHORE = asyncio.Semaphore()\<close>, which starts at one
  and is not bounded above.
\<close>

record session =
  cli_closed :: bool
  login :: "string option"
  password :: "string option"
  token :: "string option"
  accounts :: "int list option"
  sem :: nat

definition new_client :: "string option \<Rightarrow> string option \<Rightarrow> session" where
  "new_client lg pw =
     \<lparr>cli_closed = False, login = lg, password = pw, token = None, accounts = None, sem = 1\<rparr>"

definition opened :: "session \<Rightarrow> bool" where
  "opened s = (\<not> (cli_closed s \<or> token s = None))"

definition authorized :: "session \<Rightarrow> bool" where
  "authorized s = (\<not> (cli_closed s \<or> accounts s = None))"

definition reset :: "session \<Rightarrow> session" where
  "reset s = s\<lparr>token := None, accounts := None\<rparr>"

text \<open>The properties \<^verbatim>\<open>accounts\<close>, \<^verbatim>\<open>account\<close> and the method \<^verbatim>\<open>_account\<close>.\<close>

definition accounts_prop :: "session \<Rightarrow> error + int list" where
  "accounts_prop s = (case accounts s of None \<Rightarrow> Inl AuthorizationRequired | Some xs \<Rightarrow> Inr xs)"

definition account_prop :: "session \<Rightarrow> error + int" where
  "account_prop s =
     (case accounts_prop s of
        Inl e \<Rightarrow> Inl e
      | Inr [] \<Rightarrow> Inl AccountNotFound
      | Inr (x # _) \<Rightarrow> Inr x)"

definition resolve_account :: "session \<Rightarrow> int option \<Rightarrow> error + int" where
  "resolve_account s account =
     (case account of
        None \<Rightarrow> account_prop s
      | Some a \<Rightarrow>
          (case accounts_prop s of
             Inl e \<Rightarrow> Inl e
           | Inr xs \<Rightarrow> if a \<in> set xs then Inr a else Inl AccountNotFound))"

section \<open>The cookie-expiry check\<close>

text \<open>
  A cookie of the jar: its name and the parsed value of its \<^verbatim>\<open>expires\<close> attribute in
  seconds (\<open>Inl\<close> when \<^verbatim>\<open>strptime\<close> rejects the text). A jar is the current UTC second
  and the cookies in iteration order.
\<close>

record cookie =
  ckey :: string
  cexpires :: "error + int"

record jar =
  now :: int
  cookies :: "cookie list"

text \<open>
  The loop of \<^verbatim>\<open>_check_session\<close>: \<open>Inr True\<close> is the \<^verbatim>\<open>return\<close> inside the loop
  (the session lives on), \<open>Inr False\<close> is the \<^verbatim>\<open>break\<close> or the exhausted loop.
\<close>

fun session_alive :: "int \<Rightarrow> cookie list \<Rightarrow> error + bool" where
  "session_alive t [] = Inr False"
| "session_alive t (c # cs) =
     (if ckey c = ''laravel_session'' then
        (case cexpires c of
           Inl e \<Rightarrow> Inl e
         | Inr expires \<Rightarrow> if t \<ge> expires then Inr False else Inr True)
      else session_alive t cs)"

definition check_session :: "jar \<Rightarrow> session \<Rightarrow> unit outcome \<times> session" where
  "check_session j s =
     (case session_alive (now j) (cookies j) of
        Inl e \<Rightarrow> (Raised e, s)
      | Inr True \<Rightarrow> (Returned (), s)
      | Inr False \<Rightarrow> (Returned (), reset s))"

section \<open>Opening and closing\<close>

text \<open>
  The parsing layer (\<^verbatim>\<open>parsers.py\<close>) is a parameter: each parser returns its value or
  raises.
\<close>

record parsers =
  parse_token :: "string \<Rightarrow> error + string"
  parse_accounts :: "string \<Rightarrow> error + int list"

text \<open>
  What the server answers to the requests of one call. A response to the login POST has
  its final URL, the URLs of its redirect history and its body.
\<close>

record response =
  url :: string
  history :: "string list"
  body :: "error + string"

record open_env =
  open_jar :: jar
  get_login :: "error + string"
  post_login :: "error + response"

record close_env =
  close_jar :: jar
  get_logout :: "error + string"

text \<open>A request on a closed \<^verbatim>\<open>aiohttp.ClientSession\<close> raises \<^verbatim>\<open>RuntimeError\<close>.\<close>

definition request :: "session \<Rightarrow> error + 'a \<Rightarrow> error + 'a" where
  "request s answer = (if cli_closed s then Inl RuntimeError else answer)"

text \<open>Truthiness of a \<^verbatim>\<open>str | None\<close> and Python's \<^verbatim>\<open>or\<close> on such values.\<close>

fun truthy :: "'a list option \<Rightarrow> bool" where
  "truthy None = False"
| "truthy (Some x) = (x \<noteq> [])"

definition py_or :: "'a list option \<Rightarrow> 'a list option \<Rightarrow> 'a list option" where
  "py_or a b = (if truthy a then a else b)"

definition and_then ::
  "unit outcome \<times> session \<Rightarrow> (session \<Rightarrow> 'a outcome \<times> session) \<Rightarrow> 'a outcome \<times> session" where
  "and_then r f =
     (case r of
        (Returned _, s) \<Rightarrow> f s
      | (Raised e, s) \<Rightarrow> (Raised e, s)
      | (Blocked, s) \<Rightarrow> (Blocked, s))"

text \<open>The first block of \<^verbatim>\<open>open\<close>: acquire the semaphore, fetch the login page, parse the token.\<close>

definition open_session :: "parsers \<Rightarrow> open_env \<Rightarrow> session \<Rightarrow> unit outcome \<times> session" where
  "open_session P E s =
     (if opened s then (Returned (), s)
      else if sem s = 0 then (Blocked, s)
      else
        let s1 = s\<lparr>sem := sem s - 1\<rparr> in
        (case request s1 (get_login E) of
           Inl e \<Rightarrow> (Raised e, s1)
         | Inr html \<Rightarrow>
             (case parse_token P html of
                Inl e \<Rightarrow> (Raised e, s1)
              | Inr t \<Rightarrow> (Returned (), s1\<lparr>token := Some t\<rparr>))))"

text \<open>The rest of \<^verbatim>\<open>open\<close>: the login POST and the bound accounts.\<close>

definition log_in ::
  "parsers \<Rightarrow> open_env \<Rightarrow> string option \<Rightarrow> string option \<Rightarrow> bool \<Rightarrow> session
     \<Rightarrow> unit outcome \<times> session" where
  "log_in P E lg pw auth s =
     (if \<not> auth \<or> authorized s then (Returned (), s)
      else
        let lg' = py_or lg (login s); pw' = py_or pw (password s) in
        if \<not> (truthy lg' \<and> truthy pw') then (Raised AuthorizationError, s)
        else
          (case request s (post_login E) of
             Inl e \<Rightarrow> (Raised e, s)
           | Inr x \<Rightarrow>
               (case history x of
                  [] \<Rightarrow> (Raised IndexError, s)
                | h # _ \<Rightarrow>
                    if url x = h then (Raised AuthorizationError, s)
                    else
                      (case body x of
                         Inl e \<Rightarrow> (Raised e, s)
                       | Inr html \<Rightarrow>
                           (case parse_accounts P html of
                              Inl e \<Rightarrow> (Raised e, s)
                            | Inr accs \<Rightarrow>
                                (Returned (),
                                 s\<lparr>accounts := Some accs, login := lg', password := pw'\<rparr>))))))"

definition open_body ::
  "parsers \<Rightarrow> open_env \<Rightarrow> string option \<Rightarrow> string option \<Rightarrow> bool \<Rightarrow> session
     \<Rightarrow> unit outcome \<times> session" where
  "open_body P E lg pw auth s = and_then (open_session P E s) (log_in P E lg pw auth)"

text \<open>
  \<^verbatim>\<open>close\<close>: the \<^verbatim>\<open>finally\<close> block closes the transport when asked to and releases the
  semaphore; \<^verbatim>\<open>_reset\<close> is the last statement of the \<^verbatim>\<open>try\<close> block, after the logout
  request.
\<close>

definition finally_block :: "bool \<Rightarrow> session \<Rightarrow> session" where
  "finally_block close_transport s =
     (if close_transport then s\<lparr>cli_closed := True\<rparr> else s)\<lparr>sem := sem s + 1\<rparr>"

definition close_body :: "close_env \<Rightarrow> bool \<Rightarrow> session \<Rightarrow> unit outcome \<times> session" where
  "close_body E close_transport s =
     (if authorized s then
        (case request s (get_logout E) of
           Inl e \<Rightarrow> (Raised e, finally_block close_transport s)
         | Inr _ \<Rightarrow> (Returned (), finally_block close_transport (reset s)))
      else (Returned (), finally_block close_transport s))"

text \<open>
  \<^verbatim>\<open>open\<close> and \<^verbatim>\<open>close\<close> as the caller sees them, under \<^verbatim>\<open>@api(check_only=True)\<close>:
  the expiry check, then the body.
\<close>

definition api_open ::
  "parsers \<Rightarrow> open_env \<Rightarrow> string option \<Rightarrow> string option \<Rightarrow> bool \<Rightarrow> session
     \<Rightarrow> unit outcome \<times> session" where
  "api_open P E lg pw auth s =
     and_then (check_session (open_jar E) s) (open_body P E lg pw auth)"

definition api_close :: "close_env \<Rightarrow> bool \<Rightarrow> session \<Rightarrow> unit outcome \<times> session" where
  "api_close E close_transport s =
     and_then (check_session (close_jar E) s) (close_body E close_transport)"

section \<open>The guard of the decorator\<close>

text \<open>
  \<^verbatim>\<open>_wrapper\<close> up to the call of the wrapped body. The environment gives the cookie jar
  at the guard's own check and the answers for the nested \<^verbatim>\<open>close\<close> and the two
  nested \<^verbatim>\<open>open\<close> calls.
\<close>

record guard_env =
  guard_jar :: jar
  env_close :: close_env
  env_open :: open_env
  env_reopen :: open_env

definition guard ::
  "parsers \<Rightarrow> guard_env \<Rightarrow> bool \<Rightarrow> bool \<Rightarrow> bool \<Rightarrow> session \<Rightarrow> unit outcome \<times> session" where
  "guard P G auth_required check_only public s =
     and_then (check_session (guard_jar G) s) (\<lambda>s1.
       if check_only then (Returned (), s1)
       else
         let auth_required' = (if public then False else auth_required) in
         and_then (if public then api_close (env_close G) False s1 else (Returned (), s1)) (\<lambda>s2.
           and_then
             (if \<not> opened s2 then api_open P (env_open G) None None auth_required' s2
              else (Returned (), s2)) (\<lambda>s3.
             if auth_required' \<and> \<not> authorized s3
             then api_open P (env_reopen G) None None True s3
             else (Returned (), s3))))"

section \<open>Rows of the server and the helpers of the parsing layer\<close>

text \<open>
  The AJAX endpoints answer with rows of text fields. A Python \<^verbatim>\<open>str\<close> of a row is the
  list of its code points, since the code slices such fields and compares them with
  Cyrillic literals. Dates are proleptic Gregorian ordinals (\<^verbatim>\<open>date.toordinal()\<close>), so
  \<^verbatim>\<open>timedelta(days=1)\<close> is \<open>1\<close>. A Python \<^verbatim>\<open>float\<close> is modelled by a real number:
  only its comparison with zero and its equality are used.
\<close>

type_synonym ustr = "nat list"

definition ascii :: "string \<Rightarrow> ustr" where
  "ascii s = map of_char s"

definition MIN_DATE :: int where
  "MIN_DATE = 736695"

definition MAX_DATE :: int where
  "MAX_DATE = 766644"

text \<open>The helpers of \<^verbatim>\<open>utils.py\<close> and the built-in \<^verbatim>\<open>float\<close>, as parameters.\<close>

record utils =
  str_to_date :: "ustr \<Rightarrow> error + int"
  date_attr :: "ustr \<Rightarrow> error + int"
  data_attr :: "ustr \<Rightarrow> error + ustr option"
  to_float :: "ustr \<Rightarrow> error + real"
  py_float :: "ustr \<Rightarrow> error + real"

text \<open>\<^verbatim>\<open>data[i]\<close> on a row raises \<^verbatim>\<open>IndexError\<close> out of range.\<close>

definition field :: "'a list \<Rightarrow> nat \<Rightarrow> error + 'a" where
  "field data i = (if i < length data then Inr (data ! i) else Inl IndexError)"

text \<open>Applying a helper to every element; the first failure is the one raised.\<close>

fun map_result :: "('a \<Rightarrow> error + 'b) \<Rightarrow> 'a list \<Rightarrow> error + 'b list" where
  "map_result f [] = Inr []"
| "map_result f (x # xs) =
     (case f x of
        Inl e \<Rightarrow> Inl e
      | Inr y \<Rightarrow> (case map_result f xs of Inl e \<Rightarrow> Inl e | Inr ys \<Rightarrow> Inr (y # ys)))"

text \<open>\<^verbatim>\<open>_ajax\<close>: the account is resolved first, then the request is sent.\<close>

definition ajax :: "session \<Rightarrow> int option \<Rightarrow> error + 'a \<Rightarrow> error + 'a" where
  "ajax s acct answer =
     (case resolve_account s acct of Inl e \<Rightarrow> Inl e | Inr _ \<Rightarrow> request s answer)"

section \<open>Receipts\<close>

text \<open>
  \<^verbatim>\<open>Accrual\<close> as \<^verbatim>\<open>year_accruals\<close> builds it; the two document identifiers start
  absent. The \<^verbatim>\<open>details\<close> mapping, which only \<^verbatim>\<open>update_accrual\<close> writes, is left out.
\<close>

record accrual =
  account :: int
  date :: int
  summa :: real
  peni :: real
  bill_id :: "ustr option"
  peni_id :: "ustr option"

text \<open>
  \<^verbatim>\<open>download_pdf\<close>: the answer of \<^verbatim>\<open>getReceipt\<close> is a JSON object, given by its
  key-value pairs, and the file server answers per path.
\<close>

record pdf_env =
  get_receipt :: "error + (string \<times> string) list"
  get_file :: "string \<Rightarrow> error + string"

definition download_pdf :: "pdf_env \<Rightarrow> accrual \<Rightarrow> bool \<Rightarrow> session \<Rightarrow> string outcome" where
  "download_pdf E a want_peni s =
     (let ident = (if want_peni then peni_id a else bill_id a) in
      if \<not> truthy ident then Returned []
      else
        (case ajax s (Some (account a)) (get_receipt E) of
           Inl e \<Rightarrow> Returned []
         | Inr json \<Rightarrow>
             (case map_of json ''file'' of
                None \<Rightarrow> Raised KeyError
              | Some path \<Rightarrow>
                  (case request s (get_file E path) of
                     Inl e \<Rightarrow> Raised e
                   | Inr content \<Rightarrow> Returned content))))"

text \<open>Sequencing of steps that can raise.\<close>

definition on_value :: "error + 'a \<Rightarrow> ('a \<Rightarrow> error + 'b) \<Rightarrow> error + 'b" where
  "on_value r f = (case r of Inl e \<Rightarrow> Inl e | Inr x \<Rightarrow> f x)"

text \<open>
  The insertion-ordered \<^verbatim>\<open>dict\<close> of \<^verbatim>\<open>year_accruals\<close> is an association list in
  insertion order. \<open>setdefault\<close> stores the value only under a new key; \<open>modify\<close> is an
  attribute assignment on the object stored under the key.
\<close>

fun setdefault :: "'k \<Rightarrow> 'v \<Rightarrow> ('k \<times> 'v) list \<Rightarrow> ('k \<times> 'v) list" where
  "setdefault k v [] = [(k, v)]"
| "setdefault k v ((k', v') # db) =
     (if k = k' then (k', v') # db else (k', v') # setdefault k v db)"

fun modify :: "'k \<Rightarrow> ('v \<Rightarrow> 'v) \<Rightarrow> ('k \<times> 'v) list \<Rightarrow> ('k \<times> 'v) list" where
  "modify k f [] = []"
| "modify k f ((k', v) # db) =
     (if k = k' then (k', f v) # db else (k', v) # modify k f db)"

text \<open>The two row discriminators, as code points of the Cyrillic literals of the source.\<close>

definition TAG_GENERAL :: ustr where
  "TAG_GENERAL = [1086, 1073, 1097, 1072, 1103]"

definition TAG_PENI :: ustr where
  "TAG_PENI = [1087, 1077, 1085, 1080]"

text \<open>\<^verbatim>\<open>limit and limit == len(db)\<close>: a limit of zero is falsy, like an absent one.\<close>

definition limit_reached :: "int option \<Rightarrow> 'a list \<Rightarrow> bool" where
  "limit_reached limit db =
     (case limit of None \<Rightarrow> False | Some n \<Rightarrow> n \<noteq> 0 \<and> n = int (length db))"

text \<open>The \<^verbatim>\<open>for\<close> loop of \<^verbatim>\<open>year_accruals\<close>; the first branch is its \<^verbatim>\<open>break\<close>.\<close>

fun year_loop ::
  "utils \<Rightarrow> int \<Rightarrow> int option \<Rightarrow> ustr list list \<Rightarrow> (int \<times> accrual) list
     \<Rightarrow> error + (int \<times> accrual) list" where
  "year_loop U acct limit [] db = Inr db"
| "year_loop U acct limit (data # rest) db =
     on_value (field data 0) (\<lambda>f0.
     on_value (date_attr U f0) (\<lambda>d.
       if limit_reached limit db \<and> d \<notin> set (map fst db) then Inr db
       else
         on_value (field data 1) (\<lambda>f1.
         on_value (to_float U f1) (\<lambda>sm.
         on_value (field data 2) (\<lambda>f2.
         on_value (to_float U f2) (\<lambda>pn.
           let db1 = setdefault d
                 \<lparr>account = acct, date = d, summa = sm, peni = pn,
                  bill_id = None, peni_id = None\<rparr> db
           in
           on_value (field data 5) (\<lambda>f5.
           on_value (data_attr U f5) (\<lambda>ident.
           on_value (field data 3) (\<lambda>tag.
             if tag = TAG_GENERAL
             then year_loop U acct limit rest (modify d (\<lambda>r. r\<lparr>bill_id := ident\<rparr>) db1)
             else if tag = TAG_PENI
             then year_loop U acct limit rest (modify d (\<lambda>r. r\<lparr>peni_id := ident\<rparr>) db1)
             else Inl ParsingError)))))))))"

text \<open>
  \<^verbatim>\<open>year_accruals\<close>. The year only selects the server's answer, which the environment
  gives. \<open>receipts_details_failure\<close> is the exception of \<^verbatim>\<open>update_accruals\<close>, if it
  raises.
\<close>

record receipts_env =
  get_receipts :: "error + ustr list list"
  receipts_details_failure :: "error option"

definition year_accruals ::
  "utils \<Rightarrow> receipts_env \<Rightarrow> int option \<Rightarrow> int option \<Rightarrow> bool \<Rightarrow> session
     \<Rightarrow> accrual list outcome" where
  "year_accruals U E acct limit include_details s =
     (case resolve_account s acct of
        Inl e \<Rightarrow> Raised e
      | Inr a \<Rightarrow>
          (case ajax s (Some a) (get_receipts E) of
             Inl e \<Rightarrow> Raised e
           | Inr resp \<Rightarrow>
               (case year_loop U a limit resp [] of
                  Inl e \<Rightarrow> Raised e
                | Inr db \<Rightarrow>
                    if include_details then
                      (case receipts_details_failure E of
                         Some e \<Rightarrow> Raised e
                       | None \<Rightarrow> Returned (map snd db))
                    else Returned (map snd db))))"

section \<open>Monthly accruals\<close>

text \<open>
  \<^verbatim>\<open>MonthAccrual\<close> is declared in \<^verbatim>\<open>accrual.py\<close>: its constructor (which raises when
  the number of values does not fit) and its \<^verbatim>\<open>summa\<close> are parameters.
\<close>

record 'm month_class =
  MonthAccrual :: "int \<Rightarrow> int \<Rightarrow> real list \<Rightarrow> error + 'm"
  month_summa :: "'m \<Rightarrow> real"

text \<open>
  One row of the answer: the unpacking \<^verbatim>\<open>date, *floats\<close> and the construction of the
  record. Then the \<^verbatim>\<open>for\<close> loop of \<^verbatim>\<open>accruals_history\<close>, with \<^verbatim>\<open>result\<close> as
  accumulator.
\<close>

definition row_accrual :: "utils \<Rightarrow> 'm month_class \<Rightarrow> int \<Rightarrow> ustr list \<Rightarrow> error + 'm" where
  "row_accrual U M acct row =
     (case row of
        [] \<Rightarrow> Inl ValueError
      | d # floats \<Rightarrow>
          on_value (date_attr U d) (\<lambda>d'.
          on_value (map_result (to_float U) floats) (\<lambda>fs.
            MonthAccrual M acct d' fs)))"

fun accruals_loop ::
  "utils \<Rightarrow> 'm month_class \<Rightarrow> int \<Rightarrow> ustr list list \<Rightarrow> 'm list \<Rightarrow> error + 'm list" where
  "accruals_loop U M acct [] result = Inr result"
| "accruals_loop U M acct (row # rest) result =
     on_value (row_accrual U M acct row) (\<lambda>a.
       if month_summa M a = 0 then Inr result
       else accruals_loop U M acct rest (result @ [a]))"

record history_env =
  history_answer :: "int \<Rightarrow> int \<Rightarrow> error + ustr list list"
  history_details_failure :: "error option"

definition accruals_history ::
  "utils \<Rightarrow> 'm month_class \<Rightarrow> history_env \<Rightarrow> int option \<Rightarrow> int option \<Rightarrow> int option \<Rightarrow> bool
     \<Rightarrow> session \<Rightarrow> 'm list outcome" where
  "accruals_history U M E start finish acct include_details s =
     (case resolve_account s acct of
        Inl e \<Rightarrow> Raised e
      | Inr a \<Rightarrow>
          let start' = (case start of None \<Rightarrow> MIN_DATE | Some d \<Rightarrow> d);
              finish' = (case finish of None \<Rightarrow> MAX_DATE | Some d \<Rightarrow> d)
          in
          if \<not> start' \<le> finish' then Raised AssertionError
          else
            (case ajax s (Some a) (history_answer E start' finish') of
               Inl e \<Rightarrow> Raised e
             | Inr resp \<Rightarrow>
                 (case accruals_loop U M a resp [] of
                    Inl e \<Rightarrow> Raised e
                  | Inr result \<Rightarrow>
                      if include_details then
                        (case history_details_failure E of
                           Some e \<Rightarrow> Raised e
                         | None \<Rightarrow> Returned result)
                      else Returned result)))"

section \<open>Meter readings\<close>

record meter_value =
  m_date :: int
  m_value :: real
  m_consumption :: real
  m_source :: ustr

record meter_info_history =
  name :: ustr
  serial :: ustr
  readings :: "meter_value list"

text \<open>
  \<^verbatim>\<open>key.split(sep, 1)\<close>: the parts around the first occurrence of the separator. \<open>None\<close>
  stands for a result that does not unpack into two parts (no occurrence) and for the
  error of an empty separator.
\<close>

fun split_once :: "'a list \<Rightarrow> 'a list \<Rightarrow> ('a list \<times> 'a list) option" where
  "split_once sep [] = None"
| "split_once sep (c # cs) =
     (if sep \<noteq> [] \<and> take (length sep) (c # cs) = sep
      then Some ([], drop (length sep) (c # cs))
      else
        (case split_once sep cs of
           None \<Rightarrow> None
         | Some (a, b) \<Rightarrow> Some (c # a, b)))"

definition METER_SEP :: ustr where
  "METER_SEP = [44, 32, 1089, 1095, 1077, 1090, 1095, 1080, 1082, 32, 8470]"

text \<open>\<^verbatim>\<open>db.setdefault(k, []).append(v)\<close> on the insertion-ordered dictionary.\<close>

fun db_append :: "'k \<Rightarrow> 'v \<Rightarrow> ('k \<times> 'v list) list \<Rightarrow> ('k \<times> 'v list) list" where
  "db_append k v [] = [(k, [v])]"
| "db_append k v ((k', vs) # db) =
     (if k = k' then (k', vs @ [v]) # db else (k', vs) # db_append k v db)"

type_synonym meter_db = "((ustr \<times> ustr) \<times> meter_value list) list"

text \<open>
  The \<^verbatim>\<open>for\<close> loop over one page. It carries the set of dates seen, the variable
  \<^verbatim>\<open>end\<close> (here \<open>finish\<close>), which every row overwrites with its date, and the dictionary.
  Unpacking a row into its six fields raises \<^verbatim>\<open>ValueError\<close> for any other length.
\<close>

fun process_rows ::
  "utils \<Rightarrow> ustr list list \<Rightarrow> int set \<Rightarrow> int \<Rightarrow> meter_db \<Rightarrow> error + (int set \<times> int \<times> meter_db)" where
  "process_rows U [] unique_dates finish db = Inr (unique_dates, finish, db)"
| "process_rows U (row # rest) unique_dates finish db =
     (if length row \<noteq> 6 then Inl ValueError
      else
        on_value (str_to_date U (take 8 (drop 27 (row ! 2)))) (\<lambda>d.
        on_value (py_float U (row ! 4)) (\<lambda>c.
          if c = 0 then process_rows U rest (insert d unique_dates) d db
          else
            on_value (py_float U (row ! 3)) (\<lambda>v.
              (case split_once METER_SEP (row ! 1) of
                 None \<Rightarrow> Inl ValueError
               | Some (nm, sr) \<Rightarrow>
                   process_rows U rest (insert d unique_dates) d
                     (db_append (nm, sr)
                        \<lparr>m_date = d, m_value = v, m_consumption = c, m_source = row ! 5\<rparr>
                        db))))))"

text \<open>
  The \<^verbatim>\<open>while True\<close> loop. The server may answer each call differently: its answer
  depends on the number of the call and on the window asked for. \<open>None\<close> is a loop that
  never ends.
\<close>

partial_function (option) meters_loop ::
  "utils \<Rightarrow> (nat \<Rightarrow> int \<Rightarrow> int \<Rightarrow> error + ustr list list) \<Rightarrow> nat \<Rightarrow> int \<Rightarrow> int \<Rightarrow> meter_db
     \<Rightarrow> (error + meter_db) option" where
  "meters_loop U server n start finish db =
     (case server n start finish of
        Inl e \<Rightarrow> Some (Inl e)
      | Inr page \<Rightarrow>
          if \<not> length page \<le> 25 then Some (Inl AssertionError)
          else
            (case process_rows U page {} finish db of
               Inl e \<Rightarrow> Some (Inl e)
             | Inr (unique_dates, finish', db') \<Rightarrow>
                 if length page < 25 then Some (Inr db')
                 else if card unique_dates = 1 then
                   (if start = finish' then Some (Inr db')
                    else meters_loop U server (Suc n) start (finish' - 1) db')
                 else meters_loop U server (Suc n) start finish' db'))"

text \<open>
  \<^verbatim>\<open>dict.fromkeys(v)\<close> followed by \<^verbatim>\<open>tuple\<close>: the keys of an insertion-ordered
  dictionary filled from \<open>v\<close>, a key being inserted at the end when it is not yet there.
\<close>

fun fromkeys_into :: "'a list \<Rightarrow> 'a list \<Rightarrow> 'a list" where
  "fromkeys_into seen [] = seen"
| "fromkeys_into seen (x # xs) =
     (if x \<in> set seen then fromkeys_into seen xs else fromkeys_into (seen @ [x]) xs)"

definition fromkeys :: "'a list \<Rightarrow> 'a list" where
  "fromkeys xs = fromkeys_into [] xs"

definition meters_result :: "meter_db \<Rightarrow> meter_info_history list" where
  "meters_result db =
     map (\<lambda>((nm, sr), vs). \<lparr>name = nm, serial = sr, readings = fromkeys vs\<rparr>) db"

definition meters_history ::
  "utils \<Rightarrow> (nat \<Rightarrow> int \<Rightarrow> int \<Rightarrow> error + ustr list list) \<Rightarrow> int option \<Rightarrow> int option
     \<Rightarrow> int option \<Rightarrow> session \<Rightarrow> meter_info_history list outcome option" where
  "meters_history U server start finish acct s =
     (let start' = (case start of None \<Rightarrow> MIN_DATE | Some d \<Rightarrow> d);
          finish' = (case finish of None \<Rightarrow> MAX_DATE | Some d \<Rightarrow> d)
      in
      if \<not> start' \<le> finish' then Some (Raised AssertionError)
      else
        (case meters_loop U (\<lambda>n a b. ajax s acct (server n a b)) 0 start' finish' [] of
           None \<Rightarrow> None
         | Some (Inl e) \<Rightarrow> Some (Raised e)
         | Some (Inr db) \<Rightarrow> Some (Returned (meters_result db))))"

section \<open>Binding and unbinding accounts\<close>





section \<open>Reachable session states\<close>


section \<open>The session properties under study\<close>



text \<open>
  A fresh anonymous session after a guard: the token is the one of the login page that
  the guard's \<^verbatim>\<open>open\<close> fetched, and no accounts are bound.
\<close>

definition fresh_anonymous :: "parsers \<Rightarrow> guard_env \<Rightarrow> session \<Rightarrow> bool" where
  "fresh_anonymous P G s' =
     (case get_login (env_open G) of
        Inl _ \<Rightarrow> False
      | Inr html \<Rightarrow>
          (case parse_token P html of
             Inl _ \<Rightarrow> False
           | Inr t \<Rightarrow> token s' = Some t \<and> accounts s' = None \<and> \<not> cli_closed s'))"


section \<open>The properties of the readings under study\<close>

text \<open>The position of the first occurrence of an element of a list.\<close>

fun first_index :: "'a list \<Rightarrow> 'a \<Rightarrow> nat" where
  "first_index [] x = 0"
| "first_index (y # ys) x = (if x = y then 0 else Suc (first_index ys x))"

text \<open>
  \<open>r\<close> is \<open>vs\<close> without its repetitions: every reading of \<open>vs\<close> occurs once in \<open>r\<close>, and
  the readings of \<open>r\<close> stand in the order of their first occurrences in \<open>vs\<close>.
\<close>

definition deduplicated :: "'a list \<Rightarrow> 'a list \<Rightarrow> bool" where
  "deduplicated vs r =
     (distinct r \<and> set r = set vs \<and> sorted_wrt (\<lambda>x y. first_index vs x < first_index vs y) r)"

text \<open>The same list written by recursion on \<open>vs\<close>: keep the head, drop it from the rest.\<close>

fun first_occurrences :: "'a list \<Rightarrow> 'a list" where
  "first_occurrences [] = []"
| "first_occurrences (x # xs) = x # filter (\<lambda>y. y \<noteq> x) (first_occurrences xs)"

text \<open>The date that the loop reads from a row of a page, and what a last page yields.\<close>

definition row_date :: "utils \<Rightarrow> ustr list \<Rightarrow> error + int" where
  "row_date U row =
     (if length row \<noteq> 6 then Inl ValueError else str_to_date U (take 8 (drop 27 (row ! 2))))"


section \<open>The grouping of receipts under study\<close>

text \<open>
  A row of \<^verbatim>\<open>getReceipts\<close> with its fields read in the order of the loop body, and the
  effect of the loop body on the dictionary once the row is read.
\<close>

record prow =
  p_date :: int
  p_summa :: real
  p_peni :: real
  p_ident :: "ustr option"
  p_tag :: ustr

definition parse_row :: "utils \<Rightarrow> ustr list \<Rightarrow> error + prow" where
  "parse_row U data =
     on_value (field data 0) (\<lambda>f0.
     on_value (date_attr U f0) (\<lambda>d.
     on_value (field data 1) (\<lambda>f1.
     on_value (to_float U f1) (\<lambda>sm.
     on_value (field data 2) (\<lambda>f2.
     on_value (to_float U f2) (\<lambda>pn.
     on_value (field data 5) (\<lambda>f5.
     on_value (data_attr U f5) (\<lambda>ident.
     on_value (field data 3) (\<lambda>tag.
       Inr \<lparr>p_date = d, p_summa = sm, p_peni = pn, p_ident = ident, p_tag = tag\<rparr>)))))))))"

definition known_tag :: "prow \<Rightarrow> bool" where
  "known_tag p = (p_tag p = TAG_GENERAL \<or> p_tag p = TAG_PENI)"

definition apply_row :: "int \<Rightarrow> prow \<Rightarrow> (int \<times> accrual) list \<Rightarrow> error + (int \<times> accrual) list" where
  "apply_row acct p db =
     (let db1 = setdefault (p_date p)
            \<lparr>account = acct, date = p_date p, summa = p_summa p, peni = p_peni p,
             bill_id = None, peni_id = None\<rparr> db
      in
      if p_tag p = TAG_GENERAL
      then Inr (modify (p_date p) (\<lambda>r. r\<lparr>bill_id := p_ident p\<rparr>) db1)
      else if p_tag p = TAG_PENI
      then Inr (modify (p_date p) (\<lambda>r. r\<lparr>peni_id := p_ident p\<rparr>) db1)
      else Inl ParsingError)"

text \<open>
  The grouping in the words of the specification. The rows of one date merge into one
  record: its amounts are those of the first row of the date, its general-bill
  identifier is the one of the last row of the date tagged as general bill, its penalty
  identifier the one of the last row tagged as penalty. The records stand in the order in
  which their dates first appear. (For a date of the rows the group is not empty.)
\<close>

definition last_ident :: "ustr \<Rightarrow> prow list \<Rightarrow> ustr option" where
  "last_ident tag g =
     (case rev (filter (\<lambda>p. p_tag p = tag) g) of [] \<Rightarrow> None | p # _ \<Rightarrow> p_ident p)"

definition merged :: "int \<Rightarrow> prow list \<Rightarrow> int \<Rightarrow> accrual" where
  "merged acct ps d =
     (let g = filter (\<lambda>p. p_date p = d) ps in
      \<lparr>account = acct, date = d,
       summa = (case g of [] \<Rightarrow> 0 | p # _ \<Rightarrow> p_summa p),
       peni = (case g of [] \<Rightarrow> 0 | p # _ \<Rightarrow> p_peni p),
       bill_id = last_ident TAG_GENERAL g,
       peni_id = last_ident TAG_PENI g\<rparr>)"

definition grouped :: "int \<Rightarrow> prow list \<Rightarrow> accrual list" where
  "grouped acct ps = map (merged acct ps) (first_occurrences (map p_date ps))"

definition db_of :: "int \<Rightarrow> prow list \<Rightarrow> (int \<times> accrual) list" where
  "db_of acct ps = map (\<lambda>d. (d, merged acct ps d)) (first_occurrences (map p_date ps))"


section \<open>Example inputs\<close>

definition demo_parsers :: parsers where
  "demo_parsers =
     \<lparr>parse_token = (\<lambda>html. if html = [] then Inl ParsingError else Inr html),
      parse_accounts = (\<lambda>html. Inr [int (length html)])\<rparr>"

definition empty_jar :: jar where
  "empty_jar = \<lparr>now = 0, cookies = []\<rparr>"

definition live_jar :: jar where
  "live_jar = \<lparr>now = 0, cookies = [\<lparr>ckey = ''laravel_session'', cexpires = Inr 3600\<rparr>]\<rparr>"

definition expired_jar :: jar where
  "expired_jar = \<lparr>now = 3600, cookies = [\<lparr>ckey = ''laravel_session'', cexpires = Inr 3600\<rparr>]\<rparr>"

definition login_ok :: response where
  "login_ok = \<lparr>url = ''/account'', history = [''/login''], body = Inr ''1234''\<rparr>"

definition first_open :: open_env where
  "first_open = \<lparr>open_jar = empty_jar, get_login = Inr ''tok1'', post_login = Inr login_ok\<rparr>"

definition later_open :: open_env where
  "later_open = \<lparr>open_jar = live_jar, get_login = Inr ''tok2'', post_login = Inr login_ok\<rparr>"

definition tokenless_open :: open_env where
  "tokenless_open = \<lparr>open_jar = empty_jar, get_login = Inr [], post_login = Inr login_ok\<rparr>"

definition expired_open :: open_env where
  "expired_open = \<lparr>open_jar = expired_jar, get_login = Inr ''tok2'', post_login = Inr login_ok\<rparr>"

definition logout_ok :: close_env where
  "logout_ok = \<lparr>close_jar = live_jar, get_logout = Inr ''bye''\<rparr>"

definition logout_fails :: close_env where
  "logout_fails = \<lparr>close_jar = live_jar, get_logout = Inl TransportError\<rparr>"

definition demo_guard :: guard_env where
  "demo_guard =
     \<lparr>guard_jar = live_jar, env_close = logout_ok, env_open = later_open, env_reopen = later_open\<rparr>"

definition anonymous_session :: session where
  "anonymous_session =
     \<lparr>cli_closed = False, login = None, password = None, token = Some ''tok1'',
      accounts = None, sem = 0\<rparr>"

definition authorized_session :: session where
  "authorized_session =
     \<lparr>cli_closed = False, login = Some ''user'', password = Some ''secret'', token = Some ''tok1'',
      accounts = Some [4], sem = 0\<rparr>"

definition demo_accrual :: accrual where
  "demo_accrual =
     \<lparr>account = 4, date = 738000, summa = 500, peni = 0,
      bill_id = Some (ascii ''77''), peni_id = None\<rparr>"

definition pdf_file_fails :: pdf_env where
  "pdf_file_fails =
     \<lparr>get_receipt = Inr [(''file'', ''/files/77.pdf'')], get_file = (\<lambda>path. Inl TransportError)\<rparr>"

definition pdf_no_file :: pdf_env where
  "pdf_no_file = \<lparr>get_receipt = Inr [], get_file = (\<lambda>path. Inr ''%PDF'')\<rparr>"

text \<open>
  For the examples: dates and amounts are written as decimal numbers, a month record is
  its date with its values, and its total is the first value.
\<close>

fun digits_value :: "nat list \<Rightarrow> nat \<Rightarrow> nat option" where
  "digits_value [] acc = Some acc"
| "digits_value (c # cs) acc =
     (if 48 \<le> c \<and> c \<le> 57 then digits_value cs (10 * acc + (c - 48)) else None)"

definition number :: "ustr \<Rightarrow> error + nat" where
  "number s =
     (if s = [] then Inl ValueError
      else (case digits_value s 0 of None \<Rightarrow> Inl ValueError | Some n \<Rightarrow> Inr n))"

definition demo_utils :: utils where
  "demo_utils =
     \<lparr>str_to_date = (\<lambda>s. on_value (number s) (\<lambda>n. Inr (int n))),
      date_attr = (\<lambda>s. on_value (number s) (\<lambda>n. Inr (int n))),
      data_attr = (\<lambda>s. Inr (if s = [] then None else Some s)),
      to_float = (\<lambda>s. on_value (number s) (\<lambda>n. Inr (real n))),
      py_float = (\<lambda>s. on_value (number s) (\<lambda>n. Inr (real n)))\<rparr>"

definition demo_month :: "(int \<times> real list) month_class" where
  "demo_month =
     \<lparr>MonthAccrual = (\<lambda>acct d fs. if fs = [] then Inl ValueError else Inr (d, fs)),
      month_summa = (\<lambda>(d, fs). hd fs)\<rparr>"

definition accrual_rows :: "ustr list list" where
  "accrual_rows =
     [[ascii ''202401'', ascii ''500''],
      [ascii ''202402'', ascii ''0''],
      [ascii ''202403'', ascii ''300'']]"

definition demo_history :: history_env where
  "demo_history =
     \<lparr>history_answer = (\<lambda>a b. Inr accrual_rows), history_details_failure = None\<rparr>"

text \<open>Rows of the meter history: the date stands at positions 27 to 34 of its cell.\<close>

definition meter_row :: "ustr \<Rightarrow> string \<Rightarrow> string \<Rightarrow> string \<Rightarrow> ustr list" where
  "meter_row k d v c = [[], k, replicate 27 32 @ ascii d, ascii v, ascii c, ascii ''web'']"

definition water_key :: ustr where
  "water_key = ascii ''Water'' @ METER_SEP @ ascii ''123''"

definition short_page :: "ustr list list" where
  "short_page =
     [meter_row water_key ''20240105'' ''10'' ''2'',
      meter_row water_key ''20240105'' ''10'' ''2'',
      meter_row water_key ''20240104'' ''8'' ''3'']"


text \<open>Rows of receipts: date, amount, penalty, discriminator, an unused field, identifier.\<close>

definition receipt_row :: "string \<Rightarrow> ustr \<Rightarrow> string \<Rightarrow> ustr list" where
  "receipt_row d tag ident = [ascii d, ascii ''500'', ascii ''7'', tag, [], ascii ident]"

definition pair_rows :: "ustr list list" where
  "pair_rows = [receipt_row ''202401'' TAG_GENERAL ''A'', receipt_row ''202401'' TAG_PENI ''B'']"



definition unknown_rows :: "ustr list list" where
  "unknown_rows = pair_rows @ [receipt_row ''202312'' (ascii ''?'') ''C'']"

definition receipts_of :: "ustr list list \<Rightarrow> receipts_env" where
  "receipts_of rows = \<lparr>get_receipts = Inr rows, receipts_details_failure = None\<rparr>"

text \<open>A full page listed oldest first: its last row carries the newest date.\<close>

definition ascending_page :: "ustr list list" where
  "ascending_page =
     replicate 24 (meter_row water_key ''20240104'' ''10'' ''0'')
       @ [meter_row water_key ''20240105'' ''10'' ''0'']"

section \<open>Proofs\<close>

subsection \<open>The expiry check on the example jars\<close>

lemma session_alive_live [simp]: "session_alive (now live_jar) (cookies live_jar) = Inr True"
  by (simp add: live_jar_def)

lemma check_live [simp]: "check_session live_jar s = (Returned (), s)"
  by (simp add: check_session_def)

lemma check_empty [simp]: "check_session empty_jar s = (Returned (), reset s)"
  by (simp add: check_session_def empty_jar_def)

subsection \<open>Closing a session\<close>

text \<open>
  C1 (as the code has it). When \<^verbatim>\<open>close\<close> is called on an authorized session whose
  cookie is still alive and the logout request succeeds, the call returns with the token
  and the bound accounts absent. If the logout request raises, the exception propagates
  and the token and the bound accounts stay as they were, the accounts still present. In
  both cases the \<^verbatim>\<open>finally\<close> block runs: afterwards the transport is closed exactly
  when that was asked for, the semaphore has one permit more, and the cached login and
  password are untouched.
\<close>

theorem close_resets_after_successful_logout:
  assumes "authorized s"
    and "session_alive (now (close_jar E)) (cookies (close_jar E)) = Inr True"
  shows "(\<forall>html. get_logout E = Inr html \<longrightarrow>
            fst (api_close E close_transport s) = Returned ()
            \<and> token (snd (api_close E close_transport s)) = None
            \<and> accounts (snd (api_close E close_transport s)) = None
            \<and> login (snd (api_close E close_transport s)) = login s
            \<and> password (snd (api_close E close_transport s)) = password s
            \<and> cli_closed (snd (api_close E close_transport s)) = close_transport
            \<and> sem (snd (api_close E close_transport s)) = sem s + 1)
       \<and> (\<forall>e. get_logout E = Inl e \<longrightarrow>
            fst (api_close E close_transport s) = Raised e
            \<and> token (snd (api_close E close_transport s)) = token s
            \<and> accounts (snd (api_close E close_transport s)) = accounts s
            \<and> accounts (snd (api_close E close_transport s)) \<noteq> None
            \<and> login (snd (api_close E close_transport s)) = login s
            \<and> password (snd (api_close E close_transport s)) = password s
            \<and> cli_closed (snd (api_close E close_transport s)) = close_transport
            \<and> sem (snd (api_close E close_transport s)) = sem s + 1)"
proof -
  from assms(1) have open_transport: "\<not> cli_closed s" and bound: "accounts s \<noteq> None"
    by (simp_all add: authorized_def)
  from assms(2) have check: "check_session (close_jar E) s = (Returned (), s)"
    by (simp add: check_session_def)
  have ok: "api_close E close_transport s
      = (Returned (), s\<lparr>token := None, accounts := None,
                         cli_closed := close_transport, sem := sem s + 1\<rparr>)"
    if "get_logout E = Inr html" for html
    using that assms(1) open_transport
    by (simp add: api_close_def check and_then_def close_body_def request_def
        finally_block_def reset_def)
  have failed: "api_close E close_transport s
      = (Raised e, s\<lparr>cli_closed := close_transport, sem := sem s + 1\<rparr>)"
    if "get_logout E = Inl e" for e
    using that assms(1) open_transport
    by (simp add: api_close_def check and_then_def close_body_def request_def finally_block_def)
  show ?thesis
    using bound by (auto simp: ok failed)
qed

theorem close_resets_after_successful_logout_witness:
  "authorized authorized_session
   \<and> api_close logout_ok True authorized_session
       = (Returned (),
          \<lparr>cli_closed = True, login = Some ''user'', password = Some ''secret'', token = None,
           accounts = None, sem = 1\<rparr>)
   \<and> api_close logout_fails True authorized_session
       = (Raised TransportError,
          \<lparr>cli_closed = True, login = Some ''user'', password = Some ''secret'',
           token = Some ''tok1'', accounts = Some [4], sem = 1\<rparr>)"
proof -
  have a: "authorized authorized_session"
    by (simp add: authorized_def authorized_session_def)
  have l1: "session_alive (now (close_jar logout_ok)) (cookies (close_jar logout_ok)) = Inr True"
    by (simp add: logout_ok_def)
  have l2: "session_alive (now (close_jar logout_fails)) (cookies (close_jar logout_fails)) = Inr True"
    by (simp add: logout_fails_def)
  have g1: "get_logout logout_ok = Inr ''bye''" by (simp add: logout_ok_def)
  have g2: "get_logout logout_fails = Inl TransportError" by (simp add: logout_fails_def)
  from close_resets_after_successful_logout [OF a l1, of True] g1
  have 1: "api_close logout_ok True authorized_session
       = (Returned (),
          \<lparr>cli_closed = True, login = Some ''user'', password = Some ''secret'', token = None,
           accounts = None, sem = 1\<rparr>)"
    by (cases "api_close logout_ok True authorized_session")
       (simp add: authorized_session_def session.equality)
  from close_resets_after_successful_logout [OF a l2, of True] g2
  have 2: "api_close logout_fails True authorized_session
       = (Raised TransportError,
          \<lparr>cli_closed = True, login = Some ''user'', password = Some ''secret'',
           token = Some ''tok1'', accounts = Some [4], sem = 1\<rparr>)"
    by (cases "api_close logout_fails True authorized_session")
       (simp add: authorized_session_def session.equality)
  from a 1 2 show ?thesis by simp
qed

text \<open>
  C1 as stated fails: on an authorized session, a logout request that raises leaves the
  token and the bound accounts in place.
\<close>

theorem close_keeps_state_when_logout_fails:
  "authorized authorized_session
   \<and> fst (api_close logout_fails False authorized_session) = Raised TransportError
   \<and> token (snd (api_close logout_fails False authorized_session)) = Some ''tok1''
   \<and> accounts (snd (api_close logout_fails False authorized_session)) = Some [4]"
  by (simp add: api_close_def and_then_def close_body_def request_def logout_fails_def
      authorized_def authorized_session_def finally_block_def)

subsection \<open>The semaphore\<close>

text \<open>
  C2 at a failing input. A new client calls \<^verbatim>\<open>open\<close> and the login page carries no
  token: \<^verbatim>\<open>open\<close> raises the parsing error with the permit taken and the session not
  opened. No release follows on this path, so the next \<^verbatim>\<open>open\<close> waits for the
  semaphore for ever.
\<close>

theorem open_failure_leaks_permit:
  "fst (api_open demo_parsers tokenless_open None None True (new_client None None))
     = Raised ParsingError
   \<and> sem (snd (api_open demo_parsers tokenless_open None None True (new_client None None))) = 0
   \<and> \<not> opened (snd (api_open demo_parsers tokenless_open None None True (new_client None None)))
   \<and> fst (api_open demo_parsers first_open None None True
            (snd (api_open demo_parsers tokenless_open None None True (new_client None None))))
       = Blocked"
  by (simp add: api_open_def and_then_def open_body_def open_session_def request_def
      tokenless_open_def first_open_def demo_parsers_def new_client_def opened_def reset_def
      Let_def)

text \<open>
  The same wait follows an expired cookie: the expiry check clears the token of an
  opened session while the permit stays taken, so the next \<^verbatim>\<open>open\<close> asks for a second
  one. And a \<^verbatim>\<open>close\<close> that no \<^verbatim>\<open>open\<close> preceded adds a permit that was never taken.
\<close>

lemma expired_cookie_blocks_open:
  "api_open demo_parsers expired_open None None False anonymous_session
     = (Blocked, reset anonymous_session)"
  by (simp add: api_open_def and_then_def open_body_def open_session_def check_session_def
      expired_open_def expired_jar_def anonymous_session_def opened_def reset_def)

lemma close_without_open_adds_permit:
  "sem (snd (api_close logout_ok False (new_client None None))) = 2"
  by (simp add: api_close_def and_then_def close_body_def logout_ok_def authorized_def
      new_client_def finally_block_def)

subsection \<open>Downloading a receipt\<close>

lemma download_pdf_empty:
  "\<not> truthy (if want_peni then peni_id a else bill_id a) \<Longrightarrow> download_pdf E a want_peni s = Returned []"
  "ajax s (Some (account a)) (get_receipt E) = Inl e \<Longrightarrow> download_pdf E a want_peni s = Returned []"
  by (simp_all add: download_pdf_def Let_def)

text \<open>
  C3 at a failing input. The receipt has a document identifier and \<^verbatim>\<open>getReceipt\<close>
  answers with a file reference, but the download of that file fails: the request is
  outside the \<^verbatim>\<open>try\<close> block, so its exception reaches the caller. The same holds when
  the answer has no \<^verbatim>\<open>file\<close> entry.
\<close>

theorem download_pdf_propagates_file_failure:
  "download_pdf pdf_file_fails demo_accrual False authorized_session = Raised TransportError
   \<and> download_pdf pdf_no_file demo_accrual False authorized_session = Raised KeyError"
  by (simp add: download_pdf_def Let_def demo_accrual_def pdf_file_fails_def pdf_no_file_def
      authorized_session_def ajax_def resolve_account_def accounts_prop_def request_def ascii_def)

subsection \<open>The session invariant\<close>





















subsection \<open>Public operations\<close>

text \<open>
  C4 (as the code has it). Whenever the guard of a public operation lets the body run,
  the session is opened and not authorized. Its token is the one just fetched from the
  login page, unless the session was already opened and unauthorized with a live cookie:
  then \<^verbatim>\<open>close\<close> leaves it alone and the body runs on the old session and token.
\<close>

theorem public_guard_anonymous:
  assumes "guard P G auth_required False True s = (Returned (), s')"
  shows "opened s' \<and> \<not> authorized s'
     \<and> (if opened s \<and> \<not> authorized s
            \<and> session_alive (now (guard_jar G)) (cookies (guard_jar G)) = Inr True
            \<and> session_alive (now (close_jar (env_close G))) (cookies (close_jar (env_close G))) = Inr True
         then token s' = token s
         else fresh_anonymous P G s')"
  using assms
  by (auto simp: guard_def and_then_def api_close_def api_open_def close_body_def open_body_def
      open_session_def log_in_def check_session_def request_def authorized_def opened_def
      finally_block_def fresh_anonymous_def reset_def Let_def
      split: sum.splits bool.splits if_splits prod.splits outcome.splits)


lemma public_guard_on_authorized:
  "guard demo_parsers demo_guard True False True authorized_session
     = (Returned (), authorized_session\<lparr>token := Some ''tok2'', accounts := None\<rparr>)"
  by (simp add: guard_def and_then_def api_close_def api_open_def close_body_def open_body_def
      open_session_def log_in_def request_def logout_ok_def authorized_def opened_def
      authorized_session_def finally_block_def demo_guard_def later_open_def demo_parsers_def
      reset_def Let_def)

theorem public_guard_anonymous_witness:
  "guard demo_parsers demo_guard True False True authorized_session
     = (Returned (), authorized_session\<lparr>token := Some ''tok2'', accounts := None\<rparr>)
   \<and> opened (authorized_session\<lparr>token := Some ''tok2'', accounts := None\<rparr>)
   \<and> \<not> authorized (authorized_session\<lparr>token := Some ''tok2'', accounts := None\<rparr>)
   \<and> fresh_anonymous demo_parsers demo_guard
        (authorized_session\<lparr>token := Some ''tok2'', accounts := None\<rparr>)"
  using public_guard_anonymous [OF public_guard_on_authorized] public_guard_on_authorized
  by (simp add: authorized_def authorized_session_def)

text \<open>
  C4 as stated fails: on an opened, unauthorized session the guard of a public operation
  fetches no new token; the body runs on the token the session already had.
\<close>

theorem public_guard_reuses_anonymous_session:
  "opened anonymous_session \<and> \<not> authorized anonymous_session
   \<and> fst (guard demo_parsers demo_guard True False True anonymous_session) = Returned ()
   \<and> token (snd (guard demo_parsers demo_guard True False True anonymous_session)) = Some ''tok1''
   \<and> \<not> fresh_anonymous demo_parsers demo_guard
          (snd (guard demo_parsers demo_guard True False True anonymous_session))"
  by (simp add: guard_def and_then_def api_close_def close_body_def logout_ok_def authorized_def
      opened_def anonymous_session_def finally_block_def demo_guard_def fresh_anonymous_def
      later_open_def demo_parsers_def Let_def)


subsection \<open>Monthly accruals stop at the first zero total\<close>

lemma map_result_append:
  "map_result f (xs @ ys) =
     (case map_result f xs of Inl e \<Rightarrow> Inl e
      | Inr as \<Rightarrow> (case map_result f ys of Inl e \<Rightarrow> Inl e | Inr bs \<Rightarrow> Inr (as @ bs)))"
  by (induction xs) (auto split: sum.splits)

lemma accruals_loop_nonzero:
  "map_result (row_accrual U M acct) pre = Inr recs \<Longrightarrow> \<forall>r\<in>set recs. month_summa M r \<noteq> 0 \<Longrightarrow>
   accruals_loop U M acct (pre @ rest) result = accruals_loop U M acct rest (result @ recs)"
proof (induction pre arbitrary: recs result)
  case Nil
  then show ?case by simp
next
  case (Cons row pre)
  then show ?case
    by (auto simp: on_value_def split: sum.splits)
qed

lemma accruals_loop_prefix:
  assumes "map_result (row_accrual U M acct) pre = Inr recs"
    and "\<forall>r\<in>set recs. month_summa M r \<noteq> 0"
    and "rows = pre \<or> (\<exists>z post a0. rows = pre @ z # post \<and> row_accrual U M acct z = Inr a0 \<and> month_summa M a0 = 0)"
  shows "accruals_loop U M acct rows [] = Inr recs"
  using assms(3) accruals_loop_nonzero [OF assms(1,2), of "[]" "[]"]
    accruals_loop_nonzero [OF assms(1,2), of _ "[]"]
  by (auto simp: on_value_def)

text \<open>
  C8. The rows of the answer are consumed in order. When the rows \<open>pre\<close> before the first
  row with a zero total give the records \<open>recs\<close>, the result is exactly \<open>recs\<close>: the zero
  row and whatever follows it are left out, and without a zero row every row is kept.
\<close>

theorem accruals_history_stops_at_zero:
  assumes "resolve_account s acct = Inr a" and "\<not> cli_closed s"
    and "(case start of None \<Rightarrow> MIN_DATE | Some d \<Rightarrow> d) \<le> (case finish of None \<Rightarrow> MAX_DATE | Some d \<Rightarrow> d)"
    and "history_answer E (case start of None \<Rightarrow> MIN_DATE | Some d \<Rightarrow> d)
           (case finish of None \<Rightarrow> MAX_DATE | Some d \<Rightarrow> d) = Inr rows"
    and "map_result (row_accrual U M a) pre = Inr recs"
    and "\<forall>r\<in>set recs. month_summa M r \<noteq> 0"
    and "rows = pre \<or> (\<exists>z post a0. rows = pre @ z # post \<and> row_accrual U M a z = Inr a0 \<and> month_summa M a0 = 0)"
    and "include_details \<longrightarrow> history_details_failure E = None"
  shows "accruals_history U M E start finish acct include_details s = Returned recs"
proof -
  have loop: "accruals_loop U M a rows [] = Inr recs"
    by (rule accruals_loop_prefix [OF assms(5,6,7)])
  have aj: "ajax s (Some a) (Inr rows) = Inr rows"
    using assms(1,2)
    by (auto simp: ajax_def request_def resolve_account_def accounts_prop_def account_prop_def
        split: option.splits sum.splits list.splits if_splits)
  show ?thesis
    using assms(1,3,4,8) loop aj
    by (simp add: accruals_history_def Let_def)
qed

lemma row1: "row_accrual demo_utils demo_month 4 [ascii ''202401'', ascii ''500''] = Inr (202401, [500])"
  by (simp add: row_accrual_def demo_utils_def demo_month_def on_value_def number_def ascii_def)

lemma row2: "row_accrual demo_utils demo_month 4 [ascii ''202402'', ascii ''0''] = Inr (202402, [0])"
  by (simp add: row_accrual_def demo_utils_def demo_month_def on_value_def number_def ascii_def)

theorem accruals_history_stops_at_zero_witness:
  "accruals_history demo_utils demo_month demo_history None None None False authorized_session
     = Returned [(202401, [500])]"
proof -
  have 1: "resolve_account authorized_session None = Inr 4"
    by (simp add: resolve_account_def account_prop_def accounts_prop_def authorized_session_def)
  have 2: "\<not> cli_closed authorized_session" by (simp add: authorized_session_def)
  have 3: "(case None of None \<Rightarrow> MIN_DATE | Some d \<Rightarrow> d) \<le> (case None of None \<Rightarrow> MAX_DATE | Some d \<Rightarrow> d)"
    by (simp add: MIN_DATE_def MAX_DATE_def)
  have 4: "history_answer demo_history (case None of None \<Rightarrow> MIN_DATE | Some d \<Rightarrow> d)
           (case None of None \<Rightarrow> MAX_DATE | Some d \<Rightarrow> d) = Inr accrual_rows"
    by (simp add: demo_history_def)
  have 5: "map_result (row_accrual demo_utils demo_month 4) [[ascii ''202401'', ascii ''500'']]
       = Inr [(202401, [500])]"
    by (simp add: row1)
  have 6: "\<forall>r\<in>set [(202401::int, [500::real])]. month_summa demo_month r \<noteq> 0"
    by (simp add: demo_month_def)
  have 7: "accrual_rows = [[ascii ''202401'', ascii ''500'']] \<or>
     (\<exists>z post a0. accrual_rows = [[ascii ''202401'', ascii ''500'']] @ z # post
        \<and> row_accrual demo_utils demo_month 4 z = Inr a0 \<and> month_summa demo_month a0 = 0)"
  proof -
    have z: "row_accrual demo_utils demo_month 4 [ascii ''202402'', ascii ''0''] = Inr (202402, [0])"
      by (rule row2)
    have zs: "month_summa demo_month (202402::int, [0::real]) = 0"
      by (simp add: demo_month_def)
    have "accrual_rows = [[ascii ''202401'', ascii ''500'']] @ [ascii ''202402'', ascii ''0'']
            # [[ascii ''202403'', ascii ''300'']]"
      by (simp add: accrual_rows_def)
    with z zs show ?thesis by blast
  qed
  have 8: "False \<longrightarrow> history_details_failure demo_history = None" by simp
  show ?thesis
    by (rule accruals_history_stops_at_zero [OF 1 2 3 4 5 6 7 8])
qed

subsection \<open>Readings without repetitions\<close>

lemma set_first_occurrences [simp]: "set (first_occurrences xs) = set xs"
  by (induction xs) auto

lemma distinct_first_occurrences [simp]: "distinct (first_occurrences xs)"
  by (induction xs) auto

lemma fromkeys_into_first_occurrences:
  "fromkeys_into seen xs = seen @ filter (\<lambda>y. y \<notin> set seen) (first_occurrences xs)"
proof (induction xs arbitrary: seen)
  case Nil
  show ?case by simp
next
  case (Cons x xs)
  show ?case
  proof (cases "x \<in> set seen")
    case True
    then have "filter (\<lambda>y. y \<notin> set seen) (filter (\<lambda>y. y \<noteq> x) (first_occurrences xs))
        = filter (\<lambda>y. y \<notin> set seen) (first_occurrences xs)"
      by (auto intro: filter_cong)
    with True Cons show ?thesis by simp
  next
    case False
    have "filter (\<lambda>y. y \<notin> set (seen @ [x])) (first_occurrences xs)
        = filter (\<lambda>y. y \<notin> set seen) (filter (\<lambda>y. y \<noteq> x) (first_occurrences xs))"
      by (auto intro: filter_cong)
    with False Cons [of "seen @ [x]"] show ?thesis by simp
  qed
qed

lemma fromkeys_first_occurrences: "fromkeys xs = first_occurrences xs"
  by (simp add: fromkeys_def fromkeys_into_first_occurrences)

lemma sorted_first_occurrences:
  "sorted_wrt (\<lambda>a b. first_index xs a < first_index xs b) (first_occurrences xs)"
proof (induction xs)
  case Nil
  show ?case by simp
next
  case (Cons x xs)
  have "sorted_wrt (\<lambda>a b. first_index xs a < first_index xs b)
          (filter (\<lambda>y. y \<noteq> x) (first_occurrences xs))"
    using Cons by (rule sorted_wrt_filter)
  then have "sorted_wrt (\<lambda>a b. first_index (x # xs) a < first_index (x # xs) b)
          (filter (\<lambda>y. y \<noteq> x) (first_occurrences xs))"
    by (rule sorted_wrt_mono_rel [rotated]) auto
  then show ?case by auto
qed

lemma deduplicated_fromkeys: "deduplicated vs (fromkeys vs)"
  by (simp add: deduplicated_def fromkeys_first_occurrences sorted_first_occurrences)

lemma db_append_keys: "fst ` set (db_append k v db) = insert k (fst ` set db)"
  by (induction k v db rule: db_append.induct) (auto split: if_splits)

lemma db_append_distinct: "distinct (map fst db) \<Longrightarrow> distinct (map fst (db_append k v db))"
  by (induction k v db rule: db_append.induct) (auto simp: db_append_keys)

lemma process_rows_distinct:
  "distinct (map fst db) \<Longrightarrow> process_rows U page ud f db = Inr (ud', f', db')
   \<Longrightarrow> distinct (map fst db')"
proof (induction page arbitrary: ud f db)
  case Nil
  then show ?case by simp
next
  case (Cons row page)
  from Cons.prems(2) have len: "length row = 6"
    by (simp split: if_splits)
  from Cons.prems(2) len obtain d where d: "str_to_date U (take 8 (drop 27 (row ! 2))) = Inr d"
    by (auto simp: on_value_def split: sum.splits)
  from Cons.prems(2) len obtain cv where cv: "py_float U (row ! 4) = Inr cv"
    by (auto simp: d on_value_def split: sum.splits)
  show ?case
  proof (cases "cv = 0")
    case True
    with Cons.prems(2) have "process_rows U page (insert d ud) d db = Inr (ud', f', db')"
      by (simp add: len d cv on_value_def)
    with Cons.IH Cons.prems(1) show ?thesis by blast
  next
    case False
    from Cons.prems(2) False obtain vv where vv: "py_float U (row ! 3) = Inr vv"
      by (auto simp: len d cv on_value_def split: sum.splits)
    from Cons.prems(2) False obtain nm sr where sp: "split_once METER_SEP (row ! 1) = Some (nm, sr)"
      by (auto simp: len d cv vv on_value_def split: option.splits)
    from Cons.prems(2) False sp
    have "process_rows U page (insert d ud) d
            (db_append (nm, sr) \<lparr>m_date = d, m_value = vv, m_consumption = cv, m_source = row ! 5\<rparr> db)
          = Inr (ud', f', db')"
      by (simp add: len d cv vv on_value_def)
    with Cons.IH db_append_distinct [OF Cons.prems(1)] show ?thesis by blast
  qed
qed

lemma meters_loop_distinct:
  assumes "meters_loop U server n start finish db = Some y"
  shows "distinct (map fst db) \<longrightarrow> (\<forall>db'. y = Inr db' \<longrightarrow> distinct (map fst db'))"
proof (rule meters_loop.raw_induct
    [where P = "\<lambda>U server n start finish db y.
                  distinct (map fst db) \<longrightarrow> (\<forall>db'. y = Inr db' \<longrightarrow> distinct (map fst db'))",
     OF _ assms], goal_cases)
  case (1 loop U server n start finish db y)
  note IH = 1(1) and body = 1(2)
  show ?case
  proof (intro impI allI)
    fix db'
    assume dist: "distinct (map fst db)" and y: "y = Inr db'"
    show "distinct (map fst db')"
    proof (cases "server n start finish")
      case (Inl e)
      with body y show ?thesis by simp
    next
      case page: (Inr page)
      show ?thesis
      proof (cases "length page \<le> 25")
        case False
        with body page y show ?thesis by simp
      next
        case le: True
        show ?thesis
        proof (cases "process_rows U page {} finish db")
          case (Inl e)
          with body page le y show ?thesis by simp
        next
          case pr: (Inr r)
          obtain ud f1 db1 where r: "r = (ud, f1, db1)" by (cases r)
          have d1: "distinct (map fst db1)"
            by (rule process_rows_distinct [OF dist pr [unfolded r]])
          from body page le pr r
          have "(if length page < 25 then Some (Inr db1)
                 else if card ud = 1 then
                   (if start = f1 then Some (Inr db1)
                    else loop U server (Suc n) start (f1 - 1) db1)
                 else loop U server (Suc n) start f1 db1) = Some y"
            by simp
          then have step: "(if length page < 25 then Some (Inr db1)
                 else if card ud = 1 then
                   (if start = f1 then Some (Inr db1)
                    else loop U server (Suc n) start (f1 - 1) db1)
                 else loop U server (Suc n) start f1 db1) = Some (Inr db')"
            by (simp only: y)
          show ?thesis
          proof (cases "length page < 25")
            case True
            with step have "db' = db1" by simp
            with d1 show ?thesis by simp
          next
            case long: False
            show ?thesis
            proof (cases "card ud = 1")
              case one: True
              show ?thesis
              proof (cases "start = f1")
                case True
                with step long one have "db' = db1" by simp
                with d1 show ?thesis by simp
              next
                case False
                with step long one
                have "loop U server (Suc n) start (f1 - 1) db1 = Some (Inr db')" by simp
                from IH [OF this] d1 show ?thesis by simp
              qed
            next
              case False
              with step long
              have "loop U server (Suc n) start f1 db1 = Some (Inr db')" by simp
              from IH [OF this] d1 show ?thesis by simp
            qed
          qed
        qed
      qed
    qed
  qed
qed

lemma meters_result_dedup:
  "list_all2 (\<lambda>e r. (name r, serial r) = fst e \<and> deduplicated (snd e) (readings r)) db (meters_result db)"
  by (induction db) (auto simp: meters_result_def deduplicated_fromkeys)

text \<open>
  C7. Whenever \<^verbatim>\<open>meters_history\<close> returns, its result has one entry per key of the
  accumulated dictionary, in the dictionary's order and with distinct keys. The readings
  of an entry are the readings accumulated under its key with every repetition (equal
  date, value, consumption and source) collapsed to one entry, in the order of their
  first appearance.
\<close>

theorem meters_history_dedup:
  assumes "meters_history U server start finish acct s = Some (Returned result)"
  shows "\<exists>db. meters_loop U (\<lambda>n a b. ajax s acct (server n a b)) 0
               (case start of None \<Rightarrow> MIN_DATE | Some d \<Rightarrow> d)
               (case finish of None \<Rightarrow> MAX_DATE | Some d \<Rightarrow> d) [] = Some (Inr db)
           \<and> distinct (map fst db)
           \<and> list_all2 (\<lambda>e r. (name r, serial r) = fst e \<and> deduplicated (snd e) (readings r)) db result"
proof -
  from assms obtain db where
    loop: "meters_loop U (\<lambda>n a b. ajax s acct (server n a b)) 0
               (case start of None \<Rightarrow> MIN_DATE | Some d \<Rightarrow> d)
               (case finish of None \<Rightarrow> MAX_DATE | Some d \<Rightarrow> d) [] = Some (Inr db)"
    and res: "result = meters_result db"
    by (auto simp: meters_history_def Let_def split: if_splits option.splits sum.splits)
  from meters_loop_distinct [OF loop] have "distinct (map fst db)" by simp
  with loop res meters_result_dedup [of db] show ?thesis by blast
qed

lemma take_ascii [simp]: "length d = 8 \<Longrightarrow> take 8 (ascii d) = ascii d"
  by (simp add: ascii_def)

lemma demo_date [simp]:
  "str_to_date demo_utils (ascii ''20240105'') = Inr 20240105"
  "str_to_date demo_utils (ascii ''20240104'') = Inr 20240104"
  by (simp_all add: demo_utils_def number_def on_value_def ascii_def)

lemma demo_float [simp]:
  "py_float demo_utils (ascii ''10'') = Inr 10"
  "py_float demo_utils (ascii ''8'') = Inr 8"
  "py_float demo_utils (ascii ''2'') = Inr 2"
  "py_float demo_utils (ascii ''3'') = Inr 3"
  "py_float demo_utils (ascii ''0'') = Inr 0"
  by (simp_all add: demo_utils_def number_def on_value_def ascii_def)

lemma split_water [simp]: "split_once METER_SEP water_key = Some (ascii ''Water'', ascii ''123'')"
  by (simp add: METER_SEP_def water_key_def ascii_def)

lemma meter_row_fields [simp]:
  "length (meter_row k d v c) = 6"
  "meter_row k d v c ! Suc 0 = k"
  "take 8 (drop 27 (meter_row k d v c ! 2)) = take 8 (ascii d)"
  "meter_row k d v c ! 3 = ascii v"
  "meter_row k d v c ! 4 = ascii c"
  "meter_row k d v c ! 5 = ascii ''web''"
  by (simp_all add: meter_row_def)

lemma short_page_rows:
  "process_rows demo_utils short_page {} MAX_DATE [] =
     Inr ({20240105, 20240104}, 20240104,
          [((ascii ''Water'', ascii ''123''),
            [\<lparr>m_date = 20240105, m_value = 10, m_consumption = 2, m_source = ascii ''web''\<rparr>,
             \<lparr>m_date = 20240105, m_value = 10, m_consumption = 2, m_source = ascii ''web''\<rparr>,
             \<lparr>m_date = 20240104, m_value = 8, m_consumption = 3, m_source = ascii ''web''\<rparr>])])"
  by (simp add: short_page_def on_value_def insert_commute)

lemma short_history:
  "meters_history demo_utils (\<lambda>n a b. Inr short_page) None None None authorized_session =
     Some (Returned
       [\<lparr>name = ascii ''Water'', serial = ascii ''123'',
         readings =
           [\<lparr>m_date = 20240105, m_value = 10, m_consumption = 2, m_source = ascii ''web''\<rparr>,
            \<lparr>m_date = 20240104, m_value = 8, m_consumption = 3, m_source = ascii ''web''\<rparr>]\<rparr>])"
proof -
  have aj: "ajax authorized_session None (Inr short_page) = Inr short_page"
    by (simp add: ajax_def resolve_account_def account_prop_def accounts_prop_def request_def
        authorized_session_def)
  have len: "length short_page = 3" by (simp add: short_page_def)
  have "meters_loop demo_utils (\<lambda>n a b. ajax authorized_session None (Inr short_page)) 0
          MIN_DATE MAX_DATE [] =
        Some (Inr [((ascii ''Water'', ascii ''123''),
            [\<lparr>m_date = 20240105, m_value = 10, m_consumption = 2, m_source = ascii ''web''\<rparr>,
             \<lparr>m_date = 20240105, m_value = 10, m_consumption = 2, m_source = ascii ''web''\<rparr>,
             \<lparr>m_date = 20240104, m_value = 8, m_consumption = 3, m_source = ascii ''web''\<rparr>])])"
    by (subst meters_loop.simps) (simp add: aj len short_page_rows)
  then show ?thesis
    by (simp add: meters_history_def MIN_DATE_def MAX_DATE_def meters_result_def fromkeys_def)
qed

theorem meters_history_dedup_witness:
  "meters_history demo_utils (\<lambda>n a b. Inr short_page) None None None authorized_session =
     Some (Returned
       [\<lparr>name = ascii ''Water'', serial = ascii ''123'',
         readings =
           [\<lparr>m_date = 20240105, m_value = 10, m_consumption = 2, m_source = ascii ''web''\<rparr>,
            \<lparr>m_date = 20240104, m_value = 8, m_consumption = 3, m_source = ascii ''web''\<rparr>]\<rparr>])
   \<and> (\<exists>db. meters_loop demo_utils (\<lambda>n a b. ajax authorized_session None (Inr short_page)) 0
               (case None of None \<Rightarrow> MIN_DATE | Some d \<Rightarrow> d)
               (case None of None \<Rightarrow> MAX_DATE | Some d \<Rightarrow> d) [] = Some (Inr db)
           \<and> distinct (map fst db)
           \<and> list_all2 (\<lambda>e r. (name r, serial r) = fst e \<and> deduplicated (snd e) (readings r)) db
       [\<lparr>name = ascii ''Water'', serial = ascii ''123'',
         readings =
           [\<lparr>m_date = 20240105, m_value = 10, m_consumption = 2, m_source = ascii ''web''\<rparr>,
            \<lparr>m_date = 20240104, m_value = 8, m_consumption = 3, m_source = ascii ''web''\<rparr>]\<rparr>])"
  by (rule conjI [OF short_history meters_history_dedup [OF short_history]])

subsection \<open>The end of the pagination loop\<close>








subsection \<open>Receipts of a year\<close>

lemma tags_differ [simp]: "TAG_GENERAL \<noteq> TAG_PENI" "TAG_PENI \<noteq> TAG_GENERAL"
  by (simp_all add: TAG_GENERAL_def TAG_PENI_def)

lemma year_loop_step:
  assumes "parse_row U data = Inr p"
  shows "year_loop U acct limit (data # rest) db =
     (if limit_reached limit db \<and> p_date p \<notin> set (map fst db) then Inr db
      else on_value (apply_row acct p db) (year_loop U acct limit rest))"
proof -
  from assms obtain f0 where f0: "field data 0 = Inr f0"
    by (cases "field data 0") (simp_all add: parse_row_def on_value_def)
  from assms obtain d where d: "date_attr U f0 = Inr d"
    by (cases "date_attr U f0") (simp_all add: parse_row_def on_value_def f0)
  from assms obtain f1 where f1: "field data (Suc 0) = Inr f1"
    by (cases "field data (Suc 0)") (simp_all add: parse_row_def on_value_def f0 d)
  from assms obtain sm where sm: "to_float U f1 = Inr sm"
    by (cases "to_float U f1") (simp_all add: parse_row_def on_value_def f0 d f1)
  from assms obtain f2 where f2: "field data 2 = Inr f2"
    by (cases "field data 2") (simp_all add: parse_row_def on_value_def f0 d f1 sm)
  from assms obtain pn where pn: "to_float U f2 = Inr pn"
    by (cases "to_float U f2") (simp_all add: parse_row_def on_value_def f0 d f1 sm f2)
  from assms obtain f5 where f5: "field data 5 = Inr f5"
    by (cases "field data 5") (simp_all add: parse_row_def on_value_def f0 d f1 sm f2 pn)
  from assms obtain ident where ident: "data_attr U f5 = Inr ident"
    by (cases "data_attr U f5") (simp_all add: parse_row_def on_value_def f0 d f1 sm f2 pn f5)
  from assms obtain tag where tag: "field data 3 = Inr tag"
    by (cases "field data 3") (simp_all add: parse_row_def on_value_def f0 d f1 sm f2 pn f5 ident)
  from assms have p: "p = \<lparr>p_date = d, p_summa = sm, p_peni = pn, p_ident = ident, p_tag = tag\<rparr>"
    by (simp add: parse_row_def on_value_def f0 d f1 sm f2 pn f5 ident tag)
  show ?thesis
    by (simp add: on_value_def f0 d f1 sm f2 pn f5 ident tag p apply_row_def Let_def)
qed

lemma first_occurrences_snoc:
  "first_occurrences (xs @ [x]) =
     (if x \<in> set xs then first_occurrences xs else first_occurrences xs @ [x])"
  by (induction xs) auto

lemma setdefault_present: "k \<in> fst ` set db \<Longrightarrow> setdefault k v db = db"
  by (induction k v db rule: setdefault.induct) auto

lemma setdefault_absent: "k \<notin> fst ` set db \<Longrightarrow> setdefault k v db = db @ [(k, v)]"
  by (induction k v db rule: setdefault.induct) auto

lemma modify_absent: "k \<notin> fst ` set db \<Longrightarrow> modify k f (db @ [(k, v)]) = db @ [(k, f v)]"
  by (induction k f db rule: modify.induct) auto

lemma modify_map:
  "distinct ds \<Longrightarrow>
   modify k f (map (\<lambda>d. (d, g d)) ds) = map (\<lambda>d. (d, if d = k then f (g d) else g d)) ds"
proof (induction ds)
  case Nil
  show ?case by simp
next
  case (Cons d ds)
  show ?case
  proof (cases "k = d")
    case True
    with Cons.prems have "map (\<lambda>d. (d, if d = k then f (g d) else g d)) ds = map (\<lambda>d. (d, g d)) ds"
      by (intro map_cong) auto
    with True show ?thesis by simp
  next
    case False
    with Cons show ?thesis by simp
  qed
qed

lemma merged_other: "d \<noteq> p_date p \<Longrightarrow> merged acct (ps @ [p]) d = merged acct ps d"
  by (simp add: merged_def)

lemma merged_present:
  "p_date p \<in> p_date ` set ps \<Longrightarrow>
   merged acct (ps @ [p]) (p_date p) =
     (if p_tag p = TAG_GENERAL then (merged acct ps (p_date p))\<lparr>bill_id := p_ident p\<rparr>
      else if p_tag p = TAG_PENI then (merged acct ps (p_date p))\<lparr>peni_id := p_ident p\<rparr>
      else merged acct ps (p_date p))"
proof -
  assume "p_date p \<in> p_date ` set ps"
  then have "filter (\<lambda>q. p_date q = p_date p) ps \<noteq> []"
    by (auto simp: filter_empty_conv)
  then obtain q g where "filter (\<lambda>q. p_date q = p_date p) ps = q # g"
    by (cases "filter (\<lambda>q. p_date q = p_date p) ps") auto
  then show ?thesis
    by (simp add: merged_def Let_def last_ident_def)
qed

lemma merged_new:
  "p_date p \<notin> p_date ` set ps \<Longrightarrow>
   merged acct (ps @ [p]) (p_date p) =
     \<lparr>account = acct, date = p_date p, summa = p_summa p, peni = p_peni p,
      bill_id = (if p_tag p = TAG_GENERAL then p_ident p else None),
      peni_id = (if p_tag p = TAG_PENI then p_ident p else None)\<rparr>"
proof -
  assume "p_date p \<notin> p_date ` set ps"
  then have "filter (\<lambda>q. p_date q = p_date p) ps = []"
    by (auto simp: filter_empty_conv image_iff)
  then show ?thesis
    by (simp add: merged_def last_ident_def)
qed

lemma db_of_keys [simp]: "fst ` set (db_of acct ps) = p_date ` set ps"
  by (force simp: db_of_def)


lemma apply_row_db_of:
  assumes "known_tag p"
  shows "apply_row acct p (db_of acct ps) = Inr (db_of acct (ps @ [p]))"
proof (cases "p_date p \<in> p_date ` set ps")
  case True
  let ?D = "first_occurrences (map p_date ps)"
  have set_db: "setdefault (p_date p)
      \<lparr>account = acct, date = p_date p, summa = p_summa p, peni = p_peni p,
       bill_id = None, peni_id = None\<rparr> (db_of acct ps) = db_of acct ps"
    using True by (intro setdefault_present) simp
  have new: "db_of acct (ps @ [p]) = map (\<lambda>d. (d, merged acct (ps @ [p]) d)) ?D"
    using True by (simp add: db_of_def first_occurrences_snoc)
  have upd: "modify (p_date p) f (db_of acct ps)
      = map (\<lambda>d. (d, if d = p_date p then f (merged acct ps d) else merged acct ps d)) ?D" for f
    unfolding db_of_def by (rule modify_map) simp
  show ?thesis
  proof (cases "p_tag p = TAG_GENERAL")
    case g: True
    have "map (\<lambda>d. (d, if d = p_date p then (merged acct ps d)\<lparr>bill_id := p_ident p\<rparr>
                         else merged acct ps d)) ?D
        = map (\<lambda>d. (d, merged acct (ps @ [p]) d)) ?D"
      using True g by (intro map_cong) (auto simp: merged_present merged_other)
    with g show ?thesis
      by (simp add: apply_row_def Let_def set_db upd new)
  next
    case ng: False
    with assms have pn: "p_tag p = TAG_PENI" by (simp add: known_tag_def)
    have "map (\<lambda>d. (d, if d = p_date p then (merged acct ps d)\<lparr>peni_id := p_ident p\<rparr>
                         else merged acct ps d)) ?D
        = map (\<lambda>d. (d, merged acct (ps @ [p]) d)) ?D"
      using True ng pn by (intro map_cong) (auto simp: merged_present merged_other)
    with ng pn show ?thesis
      by (simp add: apply_row_def Let_def set_db upd new)
  qed
next
  case False
  let ?D = "first_occurrences (map p_date ps)"
  let ?new = "\<lparr>account = acct, date = p_date p, summa = p_summa p, peni = p_peni p,
       bill_id = None, peni_id = None\<rparr>"
  have absent: "p_date p \<notin> fst ` set (db_of acct ps)"
    using False by simp
  have set_db: "setdefault (p_date p) ?new (db_of acct ps) = db_of acct ps @ [(p_date p, ?new)]"
    by (rule setdefault_absent [OF absent])
  have upd: "modify (p_date p) f (db_of acct ps @ [(p_date p, ?new)])
      = db_of acct ps @ [(p_date p, f ?new)]" for f
    by (rule modify_absent [OF absent])
  have old: "map (\<lambda>d. (d, merged acct (ps @ [p]) d)) ?D = db_of acct ps"
    unfolding db_of_def using False by (intro map_cong) (auto simp: merged_other image_iff)
  have new: "db_of acct (ps @ [p]) = db_of acct ps @ [(p_date p, merged acct (ps @ [p]) (p_date p))]"
    using False old by (simp add: db_of_def first_occurrences_snoc)
  show ?thesis
  proof (cases "p_tag p = TAG_GENERAL")
    case True
    then show ?thesis
      by (simp add: apply_row_def Let_def set_db upd new merged_new [OF False])
  next
    case ng: False
    with assms have pn: "p_tag p = TAG_PENI" by (simp add: known_tag_def)
    with ng show ?thesis
      by (simp add: apply_row_def Let_def set_db upd new merged_new [OF False])
  qed
qed

lemma apply_row_unknown: "\<not> known_tag p \<Longrightarrow> apply_row acct p db = Inl ParsingError"
  by (simp add: apply_row_def known_tag_def Let_def)

lemma map_result_Cons:
  "map_result f (x # xs) = Inr ys \<Longrightarrow> \<exists>y ys'. f x = Inr y \<and> map_result f xs = Inr ys' \<and> ys = y # ys'"
  by (auto split: sum.splits)

lemma year_loop_known:
  "map_result (parse_row U) rows = Inr ps \<Longrightarrow> \<forall>p\<in>set ps. known_tag p \<Longrightarrow>
   year_loop U acct None (rows @ later) (db_of acct ps0)
     = year_loop U acct None later (db_of acct (ps0 @ ps))"
proof (induction rows arbitrary: ps ps0)
  case Nil
  then show ?case by simp
next
  case (Cons data rest)
  from map_result_Cons [OF Cons.prems(1)] obtain p ps' where
    p: "parse_row U data = Inr p" and rest: "map_result (parse_row U) rest = Inr ps'"
    and ps: "ps = p # ps'" by blast
  from Cons.prems(2) ps have kp: "known_tag p" and kr: "\<forall>p\<in>set ps'. known_tag p" by simp_all
  have "year_loop U acct None ((data # rest) @ later) (db_of acct ps0)
      = year_loop U acct None (rest @ later) (db_of acct (ps0 @ [p]))"
    unfolding append_Cons year_loop_step [OF p, of acct None "rest @ later" "db_of acct ps0"]
    by (simp add: limit_reached_def apply_row_db_of [OF kp] on_value_def)
  also have "\<dots> = year_loop U acct None later (db_of acct ((ps0 @ [p]) @ ps'))"
    by (rule Cons.IH [OF rest kr])
  finally show ?case by (simp add: ps)
qed

lemma db_of_Nil [simp]: "db_of acct [] = []"
  by (simp add: db_of_def)

lemma snd_db_of [simp]: "map snd (db_of acct ps) = grouped acct ps"
  by (simp add: db_of_def grouped_def comp_def)



lemma resolve_account_again: "resolve_account s acct = Inr a \<Longrightarrow> resolve_account s (Some a) = Inr a"
  by (auto simp: resolve_account_def account_prop_def accounts_prop_def
      split: option.splits sum.splits list.splits if_splits)

lemma ajax_answer:
  "resolve_account s acct = Inr a \<Longrightarrow> \<not> cli_closed s \<Longrightarrow> ajax s (Some a) answer = answer"
  by (simp add: ajax_def request_def resolve_account_again)

lemma distinct_grouped: "distinct (map date (grouped acct ps))"
proof -
  have "map date (grouped acct ps) = first_occurrences (map p_date ps)"
    by (simp add: grouped_def merged_def comp_def Let_def)
  then show ?thesis by simp
qed


text \<open>
  C9. Without a limit, when every row of the answer can be read and carries one of the
  two discriminators, \<^verbatim>\<open>year_accruals\<close> returns one record per date, in the order in
  which the dates first appear: the first row of a date creates the record (account,
  date, amount, penalty), each row tagged as general bill sets the general-bill
  identifier of the record of its date and each row tagged as penalty sets its penalty
  identifier. A row with any other discriminator raises the parsing error.
\<close>

theorem year_accruals_grouping:
  assumes "resolve_account s acct = Inr a" and "\<not> cli_closed s"
    and "map_result (parse_row U) rows = Inr ps" and "\<forall>p\<in>set ps. known_tag p"
  shows "(get_receipts E = Inr rows \<and> (include_details \<longrightarrow> receipts_details_failure E = None)
            \<longrightarrow> year_accruals U E acct None include_details s = Returned (grouped a ps))
       \<and> distinct (map date (grouped a ps))
       \<and> (\<forall>bad later p. get_receipts E = Inr (rows @ bad # later) \<and> parse_row U bad = Inr p
              \<and> \<not> known_tag p
            \<longrightarrow> year_accruals U E acct None include_details s = Raised ParsingError)"
proof (intro conjI impI allI)
  assume "get_receipts E = Inr rows \<and> (include_details \<longrightarrow> receipts_details_failure E = None)"
  moreover have "year_loop U a None rows [] = Inr (db_of a ps)"
    using year_loop_known [OF assms(3,4), of a "[]" "[]"] by simp
  ultimately show "year_accruals U E acct None include_details s = Returned (grouped a ps)"
    using assms(1) ajax_answer [OF assms(1,2), of "Inr rows"]
    by (simp add: year_accruals_def)
next
  show "distinct (map date (grouped a ps))" by (rule distinct_grouped)
next
  fix bad later p
  assume h: "get_receipts E = Inr (rows @ bad # later) \<and> parse_row U bad = Inr p \<and> \<not> known_tag p"
  then have "year_loop U a None (bad # later) (db_of a ps) = Inl ParsingError"
    unfolding year_loop_step [of U bad p a None later "db_of a ps", OF conjunct1 [OF conjunct2 [OF h]]]
    by (simp add: limit_reached_def apply_row_unknown on_value_def)
  then have "year_loop U a None (rows @ bad # later) [] = Inl ParsingError"
    using year_loop_known [OF assms(3,4), of a "bad # later" "[]"] by simp
  with h show "year_accruals U E acct None include_details s = Raised ParsingError"
    using assms(1) ajax_answer [OF assms(1,2), of "Inr (rows @ bad # later)"]
    by (simp add: year_accruals_def)
qed

lemma parse_receipt_row:
  "parse_row demo_utils (receipt_row ''202402'' tag ident) =
     Inr \<lparr>p_date = 202402, p_summa = 500, p_peni = 7,
          p_ident = (if ident = [] then None else Some (ascii ident)), p_tag = tag\<rparr>"
  "parse_row demo_utils (receipt_row ''202401'' tag ident) =
     Inr \<lparr>p_date = 202401, p_summa = 500, p_peni = 7,
          p_ident = (if ident = [] then None else Some (ascii ident)), p_tag = tag\<rparr>"
  "parse_row demo_utils (receipt_row ''202312'' tag ident) =
     Inr \<lparr>p_date = 202312, p_summa = 500, p_peni = 7,
          p_ident = (if ident = [] then None else Some (ascii ident)), p_tag = tag\<rparr>"
  by (simp_all add: parse_row_def receipt_row_def field_def demo_utils_def number_def
      on_value_def ascii_def)

lemma authorized_account:
  "resolve_account authorized_session None = Inr 4" "\<not> cli_closed authorized_session"
  by (simp_all add: resolve_account_def account_prop_def accounts_prop_def authorized_session_def)

theorem year_accruals_grouping_witness:
  "year_accruals demo_utils (receipts_of pair_rows) None None False authorized_session =
     Returned [\<lparr>account = 4, date = 202401, summa = 500, peni = 7,
                bill_id = Some (ascii ''A''), peni_id = Some (ascii ''B'')\<rparr>]
   \<and> year_accruals demo_utils (receipts_of unknown_rows) None None False authorized_session =
     Raised ParsingError"
proof -
  let ?ps = "[\<lparr>p_date = 202401, p_summa = 500, p_peni = 7, p_ident = Some (ascii ''A''),
               p_tag = TAG_GENERAL\<rparr>,
              \<lparr>p_date = 202401, p_summa = 500, p_peni = 7, p_ident = Some (ascii ''B''),
               p_tag = TAG_PENI\<rparr>]"
  have parse: "map_result (parse_row demo_utils) pair_rows = Inr ?ps"
    by (simp add: pair_rows_def parse_receipt_row)
  have known: "\<forall>p\<in>set ?ps. known_tag p"
    by (simp add: known_tag_def)
  have bad: "parse_row demo_utils (receipt_row ''202312'' (ascii ''?'') ''C'') =
      Inr \<lparr>p_date = 202312, p_summa = 500, p_peni = 7, p_ident = Some (ascii ''C''),
           p_tag = ascii ''?''\<rparr>"
    by (simp add: parse_receipt_row)
  have unknown: "\<not> known_tag \<lparr>p_date = 202312, p_summa = 500, p_peni = 7,
        p_ident = Some (ascii ''C''), p_tag = ascii ''?''\<rparr>"
    by (simp add: known_tag_def TAG_GENERAL_def TAG_PENI_def ascii_def)
  have g: "grouped 4 ?ps = [\<lparr>account = 4, date = 202401, summa = 500, peni = 7,
                bill_id = Some (ascii ''A''), peni_id = Some (ascii ''B'')\<rparr>]"
    by (simp add: grouped_def merged_def last_ident_def Let_def)
  from year_accruals_grouping [OF authorized_account parse known,
         of "receipts_of pair_rows" False]
  have 1: "year_accruals demo_utils (receipts_of pair_rows) None None False authorized_session =
     Returned (grouped 4 ?ps)"
    by (simp add: receipts_of_def)
  from year_accruals_grouping [OF authorized_account parse known,
         of "receipts_of unknown_rows" False] bad unknown
  have 2: "year_accruals demo_utils (receipts_of unknown_rows) None None False authorized_session =
     Raised ParsingError"
    by (simp add: receipts_of_def unknown_rows_def)
  from 1 2 g show ?thesis by simp
qed



text \<open>A limit of zero is falsy in the test of the loop: it behaves like no limit.\<close>

lemma year_loop_limit_zero: "year_loop U acct (Some 0) rows db = year_loop U acct None rows db"
  by (induction rows arbitrary: db)
     (simp_all add: limit_reached_def on_value_def Let_def split: sum.splits)



subsection \<open>The pagination loop on other servers\<close>

text \<open>
  Beyond the two cases of C6 the loop returns for every server that answers within the
  window asked for and lists a full page newest first (if the last row of a full page
  carries the upper bound of the window, then every row of the page does): each further
  request has a strictly smaller window.
\<close>

lemma process_rows_dates:
  "process_rows U page ud f db = Inr (ud', f', db') \<Longrightarrow>
     (\<forall>row\<in>set page. \<exists>d. row_date U row = Inr d)
     \<and> ud' = ud \<union> {d. \<exists>row\<in>set page. row_date U row = Inr d}
     \<and> (page \<noteq> [] \<longrightarrow> row_date U (last page) = Inr f')"
proof (induction page arbitrary: ud f db)
  case Nil
  then show ?case by simp
next
  case (Cons row page)
  from Cons.prems have len: "length row = 6"
    by (simp split: if_splits)
  from Cons.prems len obtain d where d: "str_to_date U (take 8 (drop 27 (row ! 2))) = Inr d"
    by (auto simp: on_value_def split: sum.splits)
  then have rd: "row_date U row = Inr d"
    by (simp add: row_date_def len)
  from Cons.prems obtain db1 where
    rest: "process_rows U page (insert d ud) d db1 = Inr (ud', f', db')"
    by (auto simp: len d on_value_def split: sum.splits if_splits option.splits)
  note IH = Cons.IH [OF rest]
  from IH have 1: "\<forall>r\<in>set (row # page). \<exists>d. row_date U r = Inr d"
    using rd by simp
  from IH have 2: "ud' = ud \<union> {d. \<exists>r\<in>set (row # page). row_date U r = Inr d}"
    using rd by auto
  have 3: "row_date U (last (row # page)) = Inr f'"
  proof (cases "page = []")
    case True
    with rest rd show ?thesis by simp
  next
    case False
    with IH show ?thesis by simp
  qed
  from 1 2 3 show ?case by blast
qed

lemma meters_loop_returns:
  assumes honest: "\<And>n finish page. start \<le> finish \<Longrightarrow> server n start finish = Inr page \<Longrightarrow>
      length page = 25 \<Longrightarrow>
      (\<forall>row\<in>set page. \<forall>d. row_date U row = Inr d \<longrightarrow> start \<le> d \<and> d \<le> finish)
      \<and> (row_date U (last page) = Inr finish \<longrightarrow> (\<forall>row\<in>set page. row_date U row = Inr finish))"
    and "start \<le> finish"
  shows "\<exists>r. meters_loop U server n start finish db = Some r"
  using assms(2)
proof (induction "nat (finish - start)" arbitrary: n finish db rule: less_induct)
  case less
  show ?case
  proof (cases "server n start finish")
    case (Inl e)
    then show ?thesis by (subst meters_loop.simps) simp
  next
    case page: (Inr page)
    show ?thesis
    proof (cases "length page \<le> 25")
      case False
      with page show ?thesis by (subst meters_loop.simps) simp
    next
      case le: True
      show ?thesis
      proof (cases "process_rows U page {} finish db")
        case (Inl e)
        with page le show ?thesis by (subst meters_loop.simps) simp
      next
        case pr: (Inr r)
        obtain ud f1 db1 where r: "r = (ud, f1, db1)" by (cases r)
        show ?thesis
        proof (cases "length page < 25")
          case True
          with page le pr r show ?thesis by (subst meters_loop.simps) simp
        next
          case False
          with le have full: "length page = 25" by simp
          then have ne: "page \<noteq> []" by auto
          note dates = process_rows_dates [OF pr [unfolded r]]
          from dates ne have lastd: "row_date U (last page) = Inr f1" by simp
          from dates have ud: "ud = {d. \<exists>row\<in>set page. row_date U row = Inr d}" by simp
          note h = honest [OF less.prems page full]
          from ne have "last page \<in> set page" by simp
          with h lastd have range: "start \<le> f1" "f1 \<le> finish" by auto
          show ?thesis
          proof (cases "card ud = 1")
            case one: True
            show ?thesis
            proof (cases "start = f1")
              case True
              with page le pr r False one show ?thesis by (subst meters_loop.simps) simp
            next
              case ns: False
              with range have "start \<le> f1 - 1" and "nat (f1 - 1 - start) < nat (finish - start)"
                by simp_all
              from less.hyps [OF this(2) this(1)]
              obtain r' where "meters_loop U server (Suc n) start (f1 - 1) db1 = Some r'" by blast
              with page le pr r False one ns show ?thesis by (subst meters_loop.simps) simp
            qed
          next
            case many: False
            have "f1 \<noteq> finish"
            proof
              assume eq: "f1 = finish"
              with h lastd have "\<forall>row\<in>set page. row_date U row = Inr finish" by simp
              with ud ne have "ud = {finish}"
                by (auto simp: neq_Nil_conv)
              with many show False by simp
            qed
            with range have "nat (f1 - start) < nat (finish - start)" by simp
            from less.hyps [OF this range(1)]
            obtain r' where "meters_loop U server (Suc n) start f1 db1 = Some r'" by blast
            with page le pr r False many show ?thesis by (subst meters_loop.simps) simp
          qed
        qed
      qed
    qed
  qed
qed

text \<open>
  It does not return for every server: when each answer is the same full page with two
  dates whose last row carries the upper bound of the window, the window never shrinks.
\<close>

lemma older_rows:
  "process_rows demo_utils (replicate n (meter_row water_key ''20240104'' ''10'' ''0'') @ rest) ud f db
     = process_rows demo_utils rest (if n = 0 then ud else insert 20240104 ud)
         (if n = 0 then f else 20240104) db"
  by (induction n arbitrary: ud f) (simp_all add: on_value_def insert_commute)

lemma ascending_page_rows:
  "process_rows demo_utils ascending_page {} finish db = Inr ({20240104, 20240105}, 20240105, db)"
  unfolding ascending_page_def older_rows
  by (simp add: on_value_def insert_commute)

lemma ascending_server_never_returns:
  assumes "meters_loop U server n start finish db = Some y"
  shows "U = demo_utils \<and> server = (\<lambda>n a b. Inr ascending_page)
           \<and> start = 20240101 \<and> finish = 20240105 \<longrightarrow> False"
proof (rule meters_loop.raw_induct
    [where P = "\<lambda>U server n start finish db y.
                  U = demo_utils \<and> server = (\<lambda>n a b. Inr ascending_page)
                  \<and> start = 20240101 \<and> finish = 20240105 \<longrightarrow> False",
     OF _ assms], goal_cases)
  case (1 loop U server n start finish db y)
  show ?case
  proof
    assume a: "U = demo_utils \<and> server = (\<lambda>n a b. Inr ascending_page)
                  \<and> start = 20240101 \<and> finish = 20240105"
    have len: "length ascending_page = 25" by (simp add: ascending_page_def)
    have two: "card {20240104, 20240105::int} = 2" by simp
    from 1(2) a have "loop U server (Suc n) start finish db = Some y"
      by (simp add: len ascending_page_rows two)
    from 1(1) [OF this] a show False by simp
  qed
qed

lemma meters_loop_can_diverge:
  "meters_loop demo_utils (\<lambda>n a b. Inr ascending_page) n 20240101 20240105 db = None"
proof (cases "meters_loop demo_utils (\<lambda>n a b. Inr ascending_page) n 20240101 20240105 db")
  case None
  then show ?thesis .
next
  case (Some y)
  from ascending_server_never_returns [OF Some] show ?thesis by simp
qed

end
